theory Spec2Isabelle
  imports Main "HOL-Library.Word"
begin

section \<open>The effect store of \<^verbatim>\<open>packages/react/src/lib/tracking.ts\<close>\<close>

text \<open>
  The module keeps four module-level variables (\<^verbatim>\<open>resetSyncRerendersSet\<close>,
  \<^verbatim>\<open>isResetSyncRerendersScheduled\<close>, \<^verbatim>\<open>useSignalsDepth\<close>, \<^verbatim>\<open>cleanUpFn\<close>) and, for every
  object made by \<^verbatim>\<open>createEffectStore\<close>, four closure variables (\<^verbatim>\<open>version\<close>,
  \<^verbatim>\<open>onChangeNotifyReact\<close>, \<^verbatim>\<open>inRender\<close>, \<^verbatim>\<open>syncRerendersCount\<close>). The embedding threads one
  record holding all of them through every operation. Objects are told apart by an
  identity: a store, a cleanup function returned by the effect's start method, and a
  callback handed to \<^verbatim>\<open>subscribe\<close> are natural numbers.

  What lies outside the module is kept as data. A call into the signals library or into
  the host appends an event to a log, the microtask queue is a list of pending tasks, and
  whether a foreign function raises is an argument of the operation that calls it.
\<close>

type_synonym store_id = nat
type_synonym handle = nat
type_synonym callback = nat

datatype event =
    StartRecording store_id handle
  | CloseRecording handle
  | Notified callback int
  | DisposeScope store_id

datatype task = ResetSyncRerenders

datatype error =
    CleanUpFnShouldBeUndefined
  | CleanUpFnShouldBeDefined
  | DepthShouldBeNonNegative
  | TooManySyncRerenders nat
  | HostCallbackRaised
  | CleanUpRaised

record effect_store =
  version :: "32 word"
  onChangeNotifyReact :: "callback option"
  inRender :: bool
  syncRerendersCount :: nat

text \<open>
  \<^verbatim>\<open>useSignalsDepth\<close> and \<^verbatim>\<open>syncRerendersCount\<close> start at 0 and are only incremented,
  reset to 0, or decremented behind the check \<^verbatim>\<open>useSignalsDepth < 1\<close>: they are natural
  numbers. \<^verbatim>\<open>version\<close> is kept in 32 bits by \<^verbatim>\<open>| 0\<close>; \<^verbatim>\<open>getSnapshot\<close> reads it as a
  signed number.
\<close>

record world =
  stores :: "store_id \<Rightarrow> effect_store"
  isResetSyncRerendersScheduled :: bool
  resetSyncRerendersSet :: "store_id list"
  useSignalsDepth :: nat
  cleanUpFn :: "handle option"
  microtasks :: "task list"
  events :: "event list"
  next_handle :: handle

text \<open>
  A throw leaves the assignments made before it in place, so the error side of a result
  carries the state at the throw.
\<close>

type_synonym outcome = "(error \<times> world) + world"

definition world_of :: "outcome \<Rightarrow> world" where
  "world_of r = (case r of Inl (e, w) \<Rightarrow> w | Inr w \<Rightarrow> w)"

definition error_of :: "outcome \<Rightarrow> error option" where
  "error_of r = (case r of Inl (e, w) \<Rightarrow> Some e | Inr w \<Rightarrow> None)"

definition maxSyncRerenders :: nat where
  "maxSyncRerenders = 25"

subsection \<open>Error messages\<close>

fun digit :: "nat \<Rightarrow> char" where
  "digit n = (''0123456789'' ! (n mod 10))"

fun decimal :: "nat \<Rightarrow> string" where
  "decimal n = (if n < 10 then [digit n] else decimal (n div 10) @ [digit n])"

text \<open>
  The text of the errors the module throws itself. What the host's callback or the cleanup
  function throws is theirs, and has no text here.
\<close>

fun message :: "error \<Rightarrow> string option" where
  "message CleanUpFnShouldBeUndefined = Some ''cleanUpFn should be undefined''"
| "message CleanUpFnShouldBeDefined = Some ''cleanUpFn should be defined with depth''"
| "message DepthShouldBeNonNegative = Some ''useSignalsDepth should be non-negative''"
| "message (TooManySyncRerenders n) =
     Some (''preact-signals: Too many sync rerenders ('' @ decimal n @
       ''), you might change parent component signal dependencies in render of child component.'')"
| "message HostCallbackRaised = None"
| "message CleanUpRaised = None"

subsection \<open>Store construction\<close>

text \<open>
  \<^verbatim>\<open>createEffectStore\<close> starts every store with \<^verbatim>\<open>version = 0\<close>, no callback,
  \<^verbatim>\<open>inRender = false\<close> and \<^verbatim>\<open>syncRerendersCount = 0\<close>. The heap of stores is a total
  function: an identity not handed out yet holds this state.
\<close>

definition createEffectStore :: effect_store where
  "createEffectStore =
     \<lparr>version = 0, onChangeNotifyReact = None, inRender = False, syncRerendersCount = 0\<rparr>"

definition init_world :: world where
  "init_world =
     \<lparr>stores = (\<lambda>_. createEffectStore),
      isResetSyncRerendersScheduled = False,
      resetSyncRerendersSet = [],
      useSignalsDepth = 0,
      cleanUpFn = None,
      microtasks = [],
      events = [],
      next_handle = 0\<rparr>"

definition upd_store :: "store_id \<Rightarrow> (effect_store \<Rightarrow> effect_store) \<Rightarrow> world \<Rightarrow> world" where
  "upd_store sid f w = w\<lparr>stores := (stores w)(sid := f (stores w sid))\<rparr>"

subsection \<open>The shared reset of the rerender counters\<close>

text \<open>
  \<^verbatim>\<open>store.r()\<close> sets \<^verbatim>\<open>syncRerendersCount = 0\<close>. \<^verbatim>\<open>resetSyncRerenders\<close> clears the flag, calls
  it on every member of the set in insertion order and empties the set.
\<close>

definition resetSyncRerendersOf :: "store_id \<Rightarrow> world \<Rightarrow> world" where
  "resetSyncRerendersOf sid w = upd_store sid (\<lambda>st. st\<lparr>syncRerendersCount := 0\<rparr>) w"

definition resetSyncRerenders :: "world \<Rightarrow> world" where
  "resetSyncRerenders w =
     (let w1 = w\<lparr>isResetSyncRerendersScheduled := False\<rparr>;
          w2 = foldl (\<lambda>v sid. resetSyncRerendersOf sid v) w1 (resetSyncRerendersSet w1)
      in w2\<lparr>resetSyncRerendersSet := []\<rparr>)"

definition scheduleResetSyncRerenders :: "store_id \<Rightarrow> world \<Rightarrow> world" where
  "scheduleResetSyncRerenders sid w =
     (let w1 = (if \<not> isResetSyncRerendersScheduled w
                then w\<lparr>isResetSyncRerendersScheduled := True,
                       microtasks := microtasks w @ [ResetSyncRerenders]\<rparr>
                else w)
      in if sid \<notin> set (resetSyncRerendersSet w1)
         then w1\<lparr>resetSyncRerendersSet := resetSyncRerendersSet w1 @ [sid]\<rparr>
         else w1)"

text \<open>
  The platform's microtask checkpoint: the tasks queued so far are taken off the queue
  and run in order.
\<close>

fun run_task :: "task \<Rightarrow> world \<Rightarrow> world" where
  "run_task ResetSyncRerenders w = resetSyncRerenders w"

definition run_microtasks :: "world \<Rightarrow> world" where
  "run_microtasks w = foldl (\<lambda>v t. run_task t v) (w\<lparr>microtasks := []\<rparr>) (microtasks w)"

subsection \<open>The methods of a store\<close>

definition getSnapshot :: "store_id \<Rightarrow> world \<Rightarrow> int" where
  "getSnapshot sid w = sint (version (stores w sid))"

text \<open>
  \<^verbatim>\<open>onChangeNotifyReact()\<close>: the host reads the snapshot of the store when it is told of a
  change, so the event records the snapshot of the state the callback is called in.
\<close>

definition notifyReact :: "callback \<Rightarrow> store_id \<Rightarrow> world \<Rightarrow> world" where
  "notifyReact cb sid w = w\<lparr>events := events w @ [Notified cb (getSnapshot sid w)]\<rparr>"

text \<open>
  The effect's callback. \<^verbatim>\<open>(version + 1) | 0\<close> is addition on 32-bit words. The first
  argument says whether the host's callback raises in this call.
\<close>

definition onDepsChange :: "bool \<Rightarrow> store_id \<Rightarrow> world \<Rightarrow> outcome" where
  "onDepsChange host_raises sid w =
     (if inRender (stores w sid) then Inr w
      else if syncRerendersCount (stores w sid) > maxSyncRerenders
      then Inl (TooManySyncRerenders (syncRerendersCount (stores w sid)), w)
      else
        (let w1 = upd_store sid (\<lambda>st. st\<lparr>version := version st + 1\<rparr>) w
         in case onChangeNotifyReact (stores w1 sid) of
              None \<Rightarrow> Inr w1
            | Some cb \<Rightarrow>
                (let w2 = notifyReact cb sid w1
                 in if host_raises then Inl (HostCallbackRaised, w2) else Inr w2)))"

definition subscribe :: "callback \<Rightarrow> store_id \<Rightarrow> world \<Rightarrow> world" where
  "subscribe cb sid w = upd_store sid (\<lambda>st. st\<lparr>onChangeNotifyReact := Some cb\<rparr>) w"

text \<open>The function returned by \<^verbatim>\<open>subscribe\<close>.\<close>

definition unsubscribe :: "store_id \<Rightarrow> world \<Rightarrow> world" where
  "unsubscribe sid w =
     (let w1 = upd_store sid (\<lambda>st. st\<lparr>version := version st + 1\<rparr>) w;
          w2 = upd_store sid (\<lambda>st. st\<lparr>onChangeNotifyReact := None\<rparr>) w1
      in w2\<lparr>events := events w2 @ [DisposeScope sid]\<rparr>)"

text \<open>
  \<^verbatim>\<open>effectInstance.S()\<close> opens the recording region of the store's effect and returns a
  new function object.
\<close>

definition effectStart :: "store_id \<Rightarrow> world \<Rightarrow> world" where
  "effectStart sid w =
     w\<lparr>cleanUpFn := Some (next_handle w),
       events := events w @ [StartRecording sid (next_handle w)],
       next_handle := next_handle w + 1\<rparr>"

definition startTracking :: "store_id \<Rightarrow> world \<Rightarrow> outcome" where
  "startTracking sid w =
     (let w1 = upd_store sid (\<lambda>st. st\<lparr>inRender := True\<rparr>) w;
          w2 = upd_store sid (\<lambda>st. st\<lparr>syncRerendersCount := syncRerendersCount st + 1\<rparr>) w1;
          w3 = scheduleResetSyncRerenders sid w2
      in if useSignalsDepth w3 = 0 \<and> cleanUpFn w3 \<noteq> None
         then Inl (CleanUpFnShouldBeUndefined, w3)
         else if useSignalsDepth w3 \<noteq> 0 \<and> cleanUpFn w3 = None
         then Inl (CleanUpFnShouldBeDefined, w3)
         else
           (let w4 = (if useSignalsDepth w3 = 0 then effectStart sid w3 else w3)
            in Inr (w4\<lparr>useSignalsDepth := useSignalsDepth w4 + 1\<rparr>)))"

text \<open>
  \<^verbatim>\<open>finishTracking\<close>. The first argument says whether the cleanup function raises. The
  inner \<^verbatim>\<open>finally\<close> clears \<^verbatim>\<open>inRender\<close> and \<^verbatim>\<open>cleanUpFn\<close>, the outer one decrements the depth,
  on the normal and on the raising path alike; the depth check in front of the \<^verbatim>\<open>try\<close>
  throws without either.
\<close>

definition finishBody :: "bool \<Rightarrow> store_id \<Rightarrow> world \<Rightarrow> outcome" where
  "finishBody cleanup_raises sid w =
     (if useSignalsDepth w = 1
      then
        (case cleanUpFn w of
           None \<Rightarrow> Inl (CleanUpFnShouldBeDefined, w)
         | Some k \<Rightarrow>
             (let w1 = w\<lparr>events := events w @ [CloseRecording k]\<rparr>;
                  w2 = upd_store sid (\<lambda>st. st\<lparr>inRender := False\<rparr>) w1;
                  w3 = w2\<lparr>cleanUpFn := None\<rparr>
              in if cleanup_raises then Inl (CleanUpRaised, w3) else Inr w3))
      else Inr w)"

definition finishTracking :: "bool \<Rightarrow> store_id \<Rightarrow> world \<Rightarrow> outcome" where
  "finishTracking cleanup_raises sid w =
     (if useSignalsDepth w < 1 then Inl (DepthShouldBeNonNegative, w)
      else
        (case finishBody cleanup_raises sid w of
           Inl (e, w') \<Rightarrow> Inl (e, w'\<lparr>useSignalsDepth := useSignalsDepth w' - 1\<rparr>)
         | Inr w' \<Rightarrow> Inr (w'\<lparr>useSignalsDepth := useSignalsDepth w' - 1\<rparr>)))"

subsection \<open>Sequences of calls\<close>

datatype op =
    Start store_id
  | Finish store_id bool
  | Change store_id bool
  | Subscribe store_id callback
  | Unsubscribe store_id
  | Microtasks

fun exec :: "op \<Rightarrow> world \<Rightarrow> outcome" where
  "exec (Start sid) w = startTracking sid w"
| "exec (Finish sid c) w = finishTracking c sid w"
| "exec (Change sid h) w = onDepsChange h sid w"
| "exec (Subscribe sid cb) w = Inr (subscribe cb sid w)"
| "exec (Unsubscribe sid) w = Inr (unsubscribe sid w)"
| "exec Microtasks w = Inr (run_microtasks w)"

text \<open>\<open>run\<close> stops at the first throw; \<open>steps\<close> is a caller that catches each throw and goes on.\<close>

fun run :: "op list \<Rightarrow> world \<Rightarrow> outcome" where
  "run [] w = Inr w"
| "run (x # xs) w = (case exec x w of Inl e \<Rightarrow> Inl e | Inr w' \<Rightarrow> run xs w')"

fun steps :: "op list \<Rightarrow> world \<Rightarrow> world" where
  "steps [] w = w"
| "steps (x # xs) w = steps xs (world_of (exec x w))"

text \<open>A batch of calls of \<^verbatim>\<open>scheduleResetSyncRerenders\<close>, one per store of the list.\<close>

fun scheduleAll :: "store_id list \<Rightarrow> world \<Rightarrow> world" where
  "scheduleAll [] w = w"
| "scheduleAll (sid # sids) w = scheduleAll sids (scheduleResetSyncRerenders sid w)"

text \<open>A render of one store that nothing interrupts: start, then finish.\<close>

definition renders :: "nat \<Rightarrow> store_id \<Rightarrow> op list" where
  "renders n sid = concat (replicate n [Start sid, Finish sid False])"

text \<open>
  The loop the guard is for: each render is followed by a change of a value the store
  read, which makes the host render again.
\<close>

definition rerender_loop :: "nat \<Rightarrow> store_id \<Rightarrow> op list" where
  "rerender_loop n sid = concat (replicate n [Start sid, Finish sid False, Change sid False])"

text \<open>
  A list of starts and finishes that closes every region it opens and no other: \<open>d\<close> is
  the number of regions the list has open so far.
\<close>

fun nested :: "nat \<Rightarrow> op list \<Rightarrow> bool" where
  "nested d [] = (d = 0)"
| "nested d (Start sid # xs) = nested (Suc d) xs"
| "nested d (Finish sid c # xs) = (0 < d \<and> nested (d - 1) xs)"
| "nested d (x # xs) = False"


subsection \<open>Invariants of the module-level state\<close>

definition cleanup_inv :: "world \<Rightarrow> bool" where
  "cleanup_inv w = ((cleanUpFn w \<noteq> None) = (0 < useSignalsDepth w))"

text \<open>
  The flag says that one reset is waiting in the queue; without it nothing waits and the
  set is empty.
\<close>

definition reset_inv :: "world \<Rightarrow> bool" where
  "reset_inv w =
     (if isResetSyncRerendersScheduled w then microtasks w = [ResetSyncRerenders]
      else microtasks w = [] \<and> resetSyncRerendersSet w = [])"

text \<open>A store that is subscribed and has rendered 26 times within one tick.\<close>

definition overrun_world :: world where
  "overrun_world = steps (Subscribe 0 7 # renders 26 0) init_world"

section \<open>Lemmas\<close>

lemmas store_defs = upd_store_def getSnapshot_def notifyReact_def world_of_def error_of_def
  maxSyncRerenders_def

lemmas tracking_defs = startTracking_def finishTracking_def finishBody_def
  scheduleResetSyncRerenders_def effectStart_def

subsection \<open>Sequences\<close>

lemma steps_append: "steps (xs @ ys) w = steps ys (steps xs w)"
  by (induction xs arbitrary: w) simp_all

lemma run_append:
  "run (xs @ ys) w = (case run xs w of Inl e \<Rightarrow> Inl e | Inr w' \<Rightarrow> run ys w')"
  by (induction xs arbitrary: w) (simp_all split: sum.splits)

lemma run_steps: "run xs w = Inr w' \<Longrightarrow> steps xs w = w'"
  by (induction xs arbitrary: w) (auto simp: world_of_def split: sum.splits)

subsection \<open>Renders in a row\<close>

lemma render_once:
  assumes "useSignalsDepth w = 0" "cleanUpFn w = None"
  shows "\<exists>w'. run [Start sid, Finish sid False] w = Inr w' \<and>
     useSignalsDepth w' = 0 \<and> cleanUpFn w' = None \<and>
     syncRerendersCount (stores w' sid) = syncRerendersCount (stores w sid) + 1 \<and>
     \<not> inRender (stores w' sid) \<and>
     version (stores w' sid) = version (stores w sid) \<and>
     onChangeNotifyReact (stores w' sid) = onChangeNotifyReact (stores w sid) \<and>
     sid \<in> set (resetSyncRerendersSet w') \<and> (reset_inv w \<longrightarrow> reset_inv w')"
  using assms
  by (simp add: tracking_defs store_defs reset_inv_def Let_def)

lemma renders_Suc: "renders (Suc n) sid = [Start sid, Finish sid False] @ renders n sid"
  by (simp add: renders_def)

lemma renders_run:
  assumes "useSignalsDepth w = 0" "cleanUpFn w = None"
  shows "\<exists>w'. run (renders n sid) w = Inr w' \<and>
     useSignalsDepth w' = 0 \<and> cleanUpFn w' = None \<and>
     syncRerendersCount (stores w' sid) = syncRerendersCount (stores w sid) + n \<and>
     (0 < n \<longrightarrow> \<not> inRender (stores w' sid) \<and> sid \<in> set (resetSyncRerendersSet w')) \<and>
     version (stores w' sid) = version (stores w sid) \<and>
     onChangeNotifyReact (stores w' sid) = onChangeNotifyReact (stores w sid) \<and>
     (reset_inv w \<longrightarrow> reset_inv w')"
  using assms
proof (induction n arbitrary: w)
  case 0
  then show ?case by (simp add: renders_def)
next
  case (Suc n)
  from render_once [OF Suc.prems, of sid] obtain w1 where
    w1: "run [Start sid, Finish sid False] w = Inr w1"
      "useSignalsDepth w1 = 0" "cleanUpFn w1 = None"
      "syncRerendersCount (stores w1 sid) = syncRerendersCount (stores w sid) + 1"
      "\<not> inRender (stores w1 sid)"
      "version (stores w1 sid) = version (stores w sid)"
      "onChangeNotifyReact (stores w1 sid) = onChangeNotifyReact (stores w sid)"
      "sid \<in> set (resetSyncRerendersSet w1)" "reset_inv w \<longrightarrow> reset_inv w1"
    by blast
  from Suc.IH [OF w1(2,3)] obtain w2 where
    w2: "run (renders n sid) w1 = Inr w2"
      "useSignalsDepth w2 = 0" "cleanUpFn w2 = None"
      "syncRerendersCount (stores w2 sid) = syncRerendersCount (stores w1 sid) + n"
      "0 < n \<longrightarrow> \<not> inRender (stores w2 sid) \<and> sid \<in> set (resetSyncRerendersSet w2)"
      "version (stores w2 sid) = version (stores w1 sid)"
      "onChangeNotifyReact (stores w2 sid) = onChangeNotifyReact (stores w1 sid)"
      "reset_inv w1 \<longrightarrow> reset_inv w2"
    by blast
  have r: "run (renders (Suc n) sid) w = Inr w2"
    unfolding renders_Suc run_append using w1(1) w2(1) by simp
  have n0: "n = 0 \<Longrightarrow> w2 = w1"
    using w2(1) by (simp add: renders_def)
  show ?case
    using r w1 w2 n0 by (cases "n = 0") auto
qed

subsection \<open>Deliveries\<close>



subsection \<open>Scheduling\<close>

lemma schedule_fields:
  "stores (scheduleResetSyncRerenders sid w) = stores w"
  "useSignalsDepth (scheduleResetSyncRerenders sid w) = useSignalsDepth w"
  "cleanUpFn (scheduleResetSyncRerenders sid w) = cleanUpFn w"
  "events (scheduleResetSyncRerenders sid w) = events w"
  "next_handle (scheduleResetSyncRerenders sid w) = next_handle w"
  "isResetSyncRerendersScheduled (scheduleResetSyncRerenders sid w)"
  "sid \<in> set (resetSyncRerendersSet (scheduleResetSyncRerenders sid w))"
  "set (resetSyncRerendersSet w) \<subseteq> set (resetSyncRerendersSet (scheduleResetSyncRerenders sid w))"
  "reset_inv w \<Longrightarrow> reset_inv (scheduleResetSyncRerenders sid w)"
  "microtasks (scheduleResetSyncRerenders sid w) =
     (if isResetSyncRerendersScheduled w then microtasks w else microtasks w @ [ResetSyncRerenders])"
  by (auto simp: scheduleResetSyncRerenders_def reset_inv_def Let_def)

subsection \<open>Nested regions\<close>

lemma start_inner:
  assumes "cleanUpFn w = Some k" "0 < useSignalsDepth w"
  shows "\<exists>w1. startTracking sid w = Inr w1 \<and> events w1 = events w \<and> cleanUpFn w1 = Some k \<and>
     useSignalsDepth w1 = Suc (useSignalsDepth w) \<and> next_handle w1 = next_handle w"
  using assms by (simp add: startTracking_def schedule_fields upd_store_def Let_def)

lemma finish_inner:
  assumes "cleanUpFn w = Some k" "1 < useSignalsDepth w"
  shows "\<exists>w1. finishTracking c sid w = Inr w1 \<and> events w1 = events w \<and> cleanUpFn w1 = Some k \<and>
     useSignalsDepth w1 = useSignalsDepth w - 1 \<and> next_handle w1 = next_handle w"
  using assms by (simp add: finishTracking_def finishBody_def)

lemma nested_run:
  assumes "nested d xs" "cleanUpFn w = Some k" "useSignalsDepth w = Suc n + d"
  shows "\<exists>w'. run xs w = Inr w' \<and> events w' = events w \<and> cleanUpFn w' = Some k \<and>
     useSignalsDepth w' = Suc n \<and> next_handle w' = next_handle w"
  using assms
proof (induction d xs arbitrary: w rule: nested.induct)
  case (1 d)
  then show ?case by simp
next
  case (2 d sid xs)
  from start_inner [OF "2.prems"(2), of sid] "2.prems"(3)
  obtain w1 where w1: "startTracking sid w = Inr w1" "events w1 = events w"
    "cleanUpFn w1 = Some k" "useSignalsDepth w1 = Suc n + Suc d" "next_handle w1 = next_handle w"
    by auto
  from "2.IH" [OF _ w1(3,4)] "2.prems"(1) w1(1,2,5) show ?case by simp
next
  case (3 d sid c xs)
  then have d: "0 < d" and nx: "nested (d - 1) xs" by simp_all
  from finish_inner [OF "3.prems"(2), of c sid] "3.prems"(3) d
  obtain w1 where w1: "finishTracking c sid w = Inr w1" "events w1 = events w"
    "cleanUpFn w1 = Some k" "useSignalsDepth w1 = Suc n + (d - 1)" "next_handle w1 = next_handle w"
    by auto
  from "3.IH" [OF nx w1(3,4)] w1(1,2,5) show ?case by simp
qed simp_all

subsection \<open>The reset\<close>

lemma reset_each_fields:
  "isResetSyncRerendersScheduled (foldl (\<lambda>v sid. resetSyncRerendersOf sid v) w xs) = isResetSyncRerendersScheduled w"
  "resetSyncRerendersSet (foldl (\<lambda>v sid. resetSyncRerendersOf sid v) w xs) = resetSyncRerendersSet w"
  "microtasks (foldl (\<lambda>v sid. resetSyncRerendersOf sid v) w xs) = microtasks w"
  "useSignalsDepth (foldl (\<lambda>v sid. resetSyncRerendersOf sid v) w xs) = useSignalsDepth w"
  "cleanUpFn (foldl (\<lambda>v sid. resetSyncRerendersOf sid v) w xs) = cleanUpFn w"
  by (induction xs arbitrary: w) (simp_all add: resetSyncRerendersOf_def upd_store_def)

lemma reset_each_count:
  "syncRerendersCount (stores (foldl (\<lambda>v sid. resetSyncRerendersOf sid v) w xs) s) =
     (if s \<in> set xs then 0 else syncRerendersCount (stores w s))"
  by (induction xs arbitrary: w) (simp_all add: resetSyncRerendersOf_def upd_store_def)

lemma resetSyncRerenders_fields:
  "\<not> isResetSyncRerendersScheduled (resetSyncRerenders w)"
  "resetSyncRerendersSet (resetSyncRerenders w) = []"
  "microtasks (resetSyncRerenders w) = microtasks w"
  "useSignalsDepth (resetSyncRerenders w) = useSignalsDepth w"
  "cleanUpFn (resetSyncRerenders w) = cleanUpFn w"
  "syncRerendersCount (stores (resetSyncRerenders w) s) =
     (if s \<in> set (resetSyncRerendersSet w) then 0 else syncRerendersCount (stores w s))"
  by (simp_all add: resetSyncRerenders_def Let_def reset_each_fields reset_each_count)

lemma run_microtasks_globals:
  "useSignalsDepth (run_microtasks w) = useSignalsDepth w"
  "cleanUpFn (run_microtasks w) = cleanUpFn w"
proof -
  have "useSignalsDepth (foldl (\<lambda>v t. run_task t v) v ts) = useSignalsDepth v \<and>
        cleanUpFn (foldl (\<lambda>v t. run_task t v) v ts) = cleanUpFn v" for v ts
  proof (induction ts arbitrary: v)
    case Nil
    show ?case by simp
  next
    case (Cons t ts)
    then show ?case by (cases t) (simp add: resetSyncRerenders_fields)
  qed
  then show "useSignalsDepth (run_microtasks w) = useSignalsDepth w"
    and "cleanUpFn (run_microtasks w) = cleanUpFn w"
    by (simp_all add: run_microtasks_def)
qed

lemma run_microtasks_scheduled:
  assumes "reset_inv w"
  shows "\<not> isResetSyncRerendersScheduled (run_microtasks w)"
    "resetSyncRerendersSet (run_microtasks w) = []"
    "microtasks (run_microtasks w) = []"
    "useSignalsDepth (run_microtasks w) = useSignalsDepth w"
    "cleanUpFn (run_microtasks w) = cleanUpFn w"
    "syncRerendersCount (stores (run_microtasks w) s) =
       (if s \<in> set (resetSyncRerendersSet w) then 0 else syncRerendersCount (stores w s))"
  using assms
  by (auto simp: reset_inv_def run_microtasks_def resetSyncRerenders_fields split: if_splits)

lemma scheduleAll_fields:
  "stores (scheduleAll sids w) = stores w"
  "set (resetSyncRerendersSet w) \<subseteq> set (resetSyncRerendersSet (scheduleAll sids w))"
  "set sids \<subseteq> set (resetSyncRerendersSet (scheduleAll sids w))"
  "reset_inv w \<Longrightarrow> reset_inv (scheduleAll sids w)"
  "sids \<noteq> [] \<Longrightarrow> isResetSyncRerendersScheduled (scheduleAll sids w)"
  "isResetSyncRerendersScheduled w \<Longrightarrow> isResetSyncRerendersScheduled (scheduleAll sids w)"
proof (induction sids arbitrary: w)
  case Nil
  {
    case 1 show ?case by simp
  next
    case 2 show ?case by simp
  next
    case 3 show ?case by simp
  next
    case 4 then show ?case by simp
  next
    case 5 then show ?case by simp
  next
    case 6 then show ?case by simp
  }
next
  case (Cons s sids)
  {
    case 1 show ?case by (simp add: Cons.IH(1) schedule_fields)
  next
    case 2 show ?case using Cons.IH(2) [of "scheduleResetSyncRerenders s w"] schedule_fields(8) [of w s]
      by auto
  next
    case 3 show ?case using Cons.IH(2,3) [of "scheduleResetSyncRerenders s w"] schedule_fields(7) [of s w]
      by auto
  next
    case 4 then show ?case by (simp add: Cons.IH(4) schedule_fields)
  next
    case 5 show ?case by (simp add: Cons.IH(6) schedule_fields)
  next
    case 6 then show ?case by (simp add: Cons.IH(6) schedule_fields)
  }
qed

subsection \<open>Invariants along any sequence of calls\<close>

lemma cleanup_inv_exec: "cleanup_inv w \<Longrightarrow> cleanup_inv (world_of (exec x w))"
  by (cases x)
    (auto simp: cleanup_inv_def startTracking_def finishTracking_def finishBody_def effectStart_def
      schedule_fields store_defs onDepsChange_def subscribe_def
      unsubscribe_def run_microtasks_globals Let_def
      split: option.splits)

lemma reset_inv_upd_store [simp]: "reset_inv (upd_store sid f w) = reset_inv w"
  by (simp add: reset_inv_def upd_store_def)

lemma reset_inv_exec: "reset_inv w \<Longrightarrow> reset_inv (world_of (exec x w))"
proof (cases x)
  case (Start sid)
  assume "reset_inv w"
  then have "reset_inv (scheduleResetSyncRerenders sid
      (upd_store sid (\<lambda>st. st\<lparr>syncRerendersCount := syncRerendersCount st + 1\<rparr>)
        (upd_store sid (\<lambda>st. st\<lparr>inRender := True\<rparr>) w)))" (is "reset_inv ?w3")
    by (simp add: schedule_fields)
  then show ?thesis
    using Start by (auto simp: startTracking_def world_of_def Let_def effectStart_def reset_inv_def)
next
  case (Finish sid c)
  assume "reset_inv w"
  then show ?thesis
    using Finish
    by (auto simp: finishTracking_def finishBody_def world_of_def upd_store_def Let_def reset_inv_def
        split: option.splits)
next
  case (Change sid h)
  assume "reset_inv w"
  then show ?thesis
    using Change
    by (auto simp: onDepsChange_def store_defs Let_def reset_inv_def split: option.splits)
next
  case (Subscribe sid cb)
  assume "reset_inv w"
  then show ?thesis using Subscribe by (simp add: subscribe_def world_of_def)
next
  case (Unsubscribe sid)
  assume "reset_inv w"
  then show ?thesis using Unsubscribe by (simp add: unsubscribe_def world_of_def upd_store_def Let_def reset_inv_def)
next
  case Microtasks
  assume "reset_inv w"
  from run_microtasks_scheduled(1,2,3) [OF this] show ?thesis
    using Microtasks by (simp add: world_of_def reset_inv_def)
qed

lemma cleanup_inv_steps: "cleanup_inv w \<Longrightarrow> cleanup_inv (steps xs w)"
  by (induction xs arbitrary: w) (simp_all add: cleanup_inv_exec)

lemma reset_inv_steps: "reset_inv w \<Longrightarrow> reset_inv (steps xs w)"
  by (induction xs arbitrary: w) (simp_all add: reset_inv_exec)

lemma init_world_invs: "cleanup_inv init_world" "reset_inv init_world"
  by (simp_all add: cleanup_inv_def reset_inv_def init_world_def)

text \<open>
  Both invariants hold in every state the module can be in: after any calls on any
  stores from the initial state, with every throw caught by the caller.
\<close>

lemma cleanup_inv_reachable: "cleanup_inv (steps xs init_world)"
  by (rule cleanup_inv_steps) (rule init_world_invs)

lemma reset_inv_reachable: "reset_inv (steps xs init_world)"
  by (rule reset_inv_steps) (rule init_world_invs)


lemma change_error:
  "error_of (onDepsChange h sid w) =
     (if inRender (stores w sid) then None
      else if maxSyncRerenders < syncRerendersCount (stores w sid)
      then Some (TooManySyncRerenders (syncRerendersCount (stores w sid)))
      else if h \<and> onChangeNotifyReact (stores w sid) \<noteq> None then Some HostCallbackRaised
      else None)"
  by (auto simp: onDepsChange_def store_defs Let_def split: option.splits)

lemma scheduleAll_microtasks:
  "microtasks (scheduleAll sids w) =
     (if isResetSyncRerendersScheduled w \<or> sids = [] then microtasks w
      else microtasks w @ [ResetSyncRerenders])"
  by (induction sids arbitrary: w) (simp_all add: schedule_fields)

section \<open>Claims\<close>

lemmas all_defs = startTracking_def finishTracking_def finishBody_def
  scheduleResetSyncRerenders_def effectStart_def upd_store_def getSnapshot_def notifyReact_def
  world_of_def error_of_def maxSyncRerenders_def onDepsChange_def subscribe_def unsubscribe_def
  init_world_def createEffectStore_def run_microtasks_def resetSyncRerenders_def
  resetSyncRerendersOf_def Let_def

subsection \<open>C1: changes delivered between two renders\<close>




subsection \<open>C2: changes during a render\<close>

text \<open>
  C2: a change delivered to the handler while \<^verbatim>\<open>inRender\<close> is true returns at once: the
  whole state, and with it the version and the log of callback calls, is what it was.
  A \<^verbatim>\<open>startTracking\<close> that returns leaves the store in that condition.
\<close>

theorem change_ignored_while_rendering:
  "(inRender (stores w sid) \<longrightarrow> onDepsChange h sid w = Inr w) \<and>
   (startTracking sid w = Inr w' \<longrightarrow> onDepsChange h sid w' = Inr w')"
  by (auto simp: onDepsChange_def startTracking_def effectStart_def schedule_fields
      store_defs Let_def split: if_splits)

text \<open>C2 at a concrete input: store 0 has started its first render, with a callback subscribed.\<close>

theorem change_ignored_while_rendering_witness:
  "inRender (stores (steps [Subscribe 0 7, Start 0] init_world) 0) \<and>
   onDepsChange True 0 (steps [Subscribe 0 7, Start 0] init_world) =
     Inr (steps [Subscribe 0 7, Start 0] init_world) \<and>
   startTracking 0 (subscribe 7 0 init_world) = Inr (steps [Subscribe 0 7, Start 0] init_world)"
proof -
  have h1: "inRender (stores (steps [Subscribe 0 7, Start 0] init_world) 0)"
    by (simp add: all_defs)
  have h2: "startTracking 0 (subscribe 7 0 init_world) =
      Inr (steps [Subscribe 0 7, Start 0] init_world)"
    by (simp add: all_defs)
  from change_ignored_while_rendering
    [where w = "steps [Subscribe 0 7, Start 0] init_world" and sid = 0 and h = True
      and w' = "steps [Subscribe 0 7, Start 0] init_world"] h1 h2
  show ?thesis by blast
qed

subsection \<open>C3: the ceiling on synchronous rerenders\<close>

text \<open>
  C3 as the specification words it: \<^verbatim>\<open>startTracking\<close> fails once
  \<^verbatim>\<open>syncRerendersCount\<close> exceeds 25, so that a 26th render within one tick never begins.
  In the code \<^verbatim>\<open>startTracking\<close> only counts. Store 0 runs the loop of render and change
  25 times and then renders a 26th time, all without a throw; the change after that
  render is the first call that throws; and in \<open>overrun_world\<close>, where the counter is
  26, \<^verbatim>\<open>startTracking\<close> succeeds again.
\<close>

theorem startTracking_beyond_ceiling_succeeds:
  "error_of (run (rerender_loop 25 0 @ [Start 0, Finish 0 False]) init_world) = None \<and>
   error_of (run (rerender_loop 25 0 @ [Start 0, Finish 0 False, Change 0 False]) init_world) =
     Some (TooManySyncRerenders 26) \<and>
   syncRerendersCount (stores overrun_world 0) = 26 \<and>
   maxSyncRerenders < syncRerendersCount (stores overrun_world 0) \<and>
   error_of (startTracking 0 overrun_world) = None"
  by code_simp

text \<open>
  C3, amended: \<^verbatim>\<open>startTracking\<close> never throws the too-many-rerenders error, whatever
  the counter; the guard is in the dependency-change handler and stops no render from
  beginning. From a state with no region open, any number \<open>n > 0\<close> of renders of one
  store in a row completes, and one more \<^verbatim>\<open>startTracking\<close> after them returns as well.
  A change delivered after the \<open>n\<close> renders throws the error exactly when the store's
  counter, which is then its old value plus \<open>n\<close>, exceeds 25; the error names that
  counter. Once the queued reset has run the counter is 0, and a further render followed
  by a change does not throw.
\<close>

theorem runaway_guard_in_change_handler:
  assumes "useSignalsDepth w = 0" and "cleanUpFn w = None" and "reset_inv w" and "0 < n"
  shows "error_of (startTracking sid v) \<noteq> Some (TooManySyncRerenders m) \<and>
    error_of (run (renders n sid) w) = None \<and>
    error_of (startTracking sid (steps (renders n sid) w)) = None \<and>
    (error_of (onDepsChange h sid (steps (renders n sid) w)) = Some (TooManySyncRerenders k)
       \<longleftrightarrow> k = syncRerendersCount (stores w sid) + n \<and> maxSyncRerenders < k) \<and>
    syncRerendersCount (stores (run_microtasks (steps (renders n sid) w)) sid) = 0 \<and>
    error_of (run [Microtasks, Start sid, Finish sid False, Change sid False]
                (steps (renders n sid) w)) = None"
proof -
  have a: "error_of (startTracking sid v) \<noteq> Some (TooManySyncRerenders m)"
    by (simp add: startTracking_def error_of_def Let_def)
  from renders_run [OF assms(1,2), of n sid] assms(3,4) obtain w1 where
    w1: "run (renders n sid) w = Inr w1" "useSignalsDepth w1 = 0" "cleanUpFn w1 = None"
      "syncRerendersCount (stores w1 sid) = syncRerendersCount (stores w sid) + n"
      "\<not> inRender (stores w1 sid)" "sid \<in> set (resetSyncRerendersSet w1)" "reset_inv w1"
    by auto
  have s1: "steps (renders n sid) w = w1"
    using w1(1) by (rule run_steps)
  have b: "error_of (run (renders n sid) w) = None"
    using w1(1) by (simp add: error_of_def)
  have b': "error_of (startTracking sid w1) = None"
    using w1(2,3)
    by (simp add: startTracking_def schedule_fields upd_store_def error_of_def Let_def)
  have c: "error_of (onDepsChange h sid w1) = Some (TooManySyncRerenders k)
       \<longleftrightarrow> k = syncRerendersCount (stores w sid) + n \<and> maxSyncRerenders < k"
    using w1(4,5) by (auto simp: change_error)
  define w2 where "w2 = run_microtasks w1"
  have w2: "useSignalsDepth w2 = 0" "cleanUpFn w2 = None" "syncRerendersCount (stores w2 sid) = 0"
    using run_microtasks_scheduled(4,5) [OF w1(7)] run_microtasks_scheduled(6) [OF w1(7), of sid]
      w1(2,3,6)
    by (simp_all add: w2_def)
  from render_once [OF w2(1,2), of sid] obtain w3 where
    w3: "run [Start sid, Finish sid False] w2 = Inr w3"
      "syncRerendersCount (stores w3 sid) = syncRerendersCount (stores w2 sid) + 1"
      "\<not> inRender (stores w3 sid)"
    by blast
  have e: "error_of (run [Microtasks, Start sid, Finish sid False, Change sid False] w1) = None"
  proof -
    have "run ([Microtasks] @ [Start sid, Finish sid False] @ [Change sid False]) w1 =
        onDepsChange False sid w3"
      unfolding run_append using w3(1) by (simp add: w2_def [symmetric] split: sum.splits)
    moreover have "error_of (onDepsChange False sid w3) = None"
      using w3(2) w2(3) by (simp add: change_error maxSyncRerenders_def)
    ultimately show ?thesis by simp
  qed
  show ?thesis using a b b' c w2(3) e by (simp add: s1 w2_def)
qed

text \<open>
  The amended C3 at a concrete input: 26 renders of store 0 from the initial state. A
  27th \<^verbatim>\<open>startTracking\<close> returns; a change delivered instead throws with counter 26;
  after the reset a render and a change pass.
\<close>

theorem runaway_guard_in_change_handler_witness:
  "useSignalsDepth init_world = 0 \<and> cleanUpFn init_world = None \<and> reset_inv init_world \<and>
   (0 :: nat) < 26 \<and>
   error_of (startTracking 0 overrun_world) \<noteq> Some (TooManySyncRerenders 26) \<and>
   error_of (run (renders 26 0) init_world) = None \<and>
   error_of (startTracking 0 (steps (renders 26 0) init_world)) = None \<and>
   error_of (onDepsChange True 0 (steps (renders 26 0) init_world)) =
     Some (TooManySyncRerenders 26) \<and>
   syncRerendersCount (stores (run_microtasks (steps (renders 26 0) init_world)) 0) = 0 \<and>
   error_of (run [Microtasks, Start 0, Finish 0 False, Change 0 False]
               (steps (renders 26 0) init_world)) = None"
proof -
  have h1: "useSignalsDepth init_world = 0" by (simp add: init_world_def)
  have h2: "cleanUpFn init_world = None" by (simp add: init_world_def)
  have h3: "reset_inv init_world" by (simp add: init_world_def reset_inv_def)
  have h4: "(0 :: nat) < 26" by simp
  have c0: "syncRerendersCount (stores init_world 0) = 0"
    by (simp add: init_world_def createEffectStore_def)
  from runaway_guard_in_change_handler
    [OF h1 h2 h3 h4, where sid = 0 and v = overrun_world and m = 26 and h = True and k = 26]
    h1 h2 h3 h4 c0
  show ?thesis by (simp add: maxSyncRerenders_def)
qed

subsection \<open>C4: nested tracking\<close>

text \<open>
  C4: with no region open, store \<open>a\<close> starts tracking, any list of starts and finishes
  that closes what it opens follows, and \<open>a\<close> finishes. Whatever the list, the calls
  into the effect are two: one start of recording, for \<open>a\<close>, and one call of the cleanup
  function, and the function called is the one that start returned. The calls in between
  all return; the last one throws only if the cleanup function does, after it was called.
\<close>

theorem nested_tracking_one_region:
  assumes "useSignalsDepth w = 0" and "cleanUpFn w = None" and "nested 0 xs"
  shows "\<exists>w'. run (Start a # xs @ [Finish a c]) w =
             (if c then Inl (CleanUpRaised, w') else Inr w') \<and>
     events w' = events w @ [StartRecording a (next_handle w), CloseRecording (next_handle w)] \<and>
     useSignalsDepth w' = 0 \<and> cleanUpFn w' = None"
proof -
  obtain w1 where w1: "startTracking a w = Inr w1"
    "events w1 = events w @ [StartRecording a (next_handle w)]"
    "cleanUpFn w1 = Some (next_handle w)" "useSignalsDepth w1 = Suc 0 + 0"
    using assms(1,2)
    by (simp add: startTracking_def effectStart_def schedule_fields upd_store_def Let_def)
  from nested_run [OF assms(3) w1(3,4)] obtain w2 where
    w2: "run xs w1 = Inr w2" "events w2 = events w1" "cleanUpFn w2 = Some (next_handle w)"
      "useSignalsDepth w2 = Suc 0"
    by blast
  have "\<exists>w'. finishTracking c a w2 = (if c then Inl (CleanUpRaised, w') else Inr w') \<and>
     events w' = events w2 @ [CloseRecording (next_handle w)] \<and>
     useSignalsDepth w' = 0 \<and> cleanUpFn w' = None"
    using w2(3,4) by (simp add: finishTracking_def finishBody_def upd_store_def Let_def)
  then obtain w3 where
    w3: "finishTracking c a w2 = (if c then Inl (CleanUpRaised, w3) else Inr w3)"
      "events w3 = events w2 @ [CloseRecording (next_handle w)]"
      "useSignalsDepth w3 = 0" "cleanUpFn w3 = None"
    by blast
  have "run (Start a # xs @ [Finish a c]) w = (if c then Inl (CleanUpRaised, w3) else Inr w3)"
    using w1(1) w2(1) w3(1) by (simp add: run_append)
  with w3 w2(2) w1(2) show ?thesis by auto
qed

text \<open>
  C4 at a concrete input: store 0 renders, stores 1 and 2 render inside it, one inside
  the other, and store 1 renders once more before store 0 finishes.
\<close>

theorem nested_tracking_one_region_witness:
  "useSignalsDepth init_world = 0 \<and> cleanUpFn init_world = None \<and>
   nested 0 [Start 1, Start 2, Finish 2 False, Finish 1 False, Start 1, Finish 1 False] \<and>
   error_of (run (Start 0 #
       [Start 1, Start 2, Finish 2 False, Finish 1 False, Start 1, Finish 1 False] @
       [Finish 0 False]) init_world) = None \<and>
   events (world_of (run (Start 0 #
       [Start 1, Start 2, Finish 2 False, Finish 1 False, Start 1, Finish 1 False] @
       [Finish 0 False]) init_world)) = [StartRecording 0 0, CloseRecording 0]"
proof -
  have h1: "useSignalsDepth init_world = 0" by (simp add: init_world_def)
  have h2: "cleanUpFn init_world = None" by (simp add: init_world_def)
  have h3: "nested 0 [Start 1, Start 2, Finish 2 False, Finish 1 False, Start 1, Finish 1 False]"
    by simp
  have e: "events init_world = []" "next_handle init_world = 0"
    by (simp_all add: init_world_def)
  from nested_tracking_one_region [OF h1 h2 h3, of 0 False] obtain w' where
    "run (Start 0 #
       [Start 1, Start 2, Finish 2 False, Finish 1 False, Start 1, Finish 1 False] @
       [Finish 0 False]) init_world = Inr w'"
    "events w' = events init_world @
       [StartRecording 0 (next_handle init_world), CloseRecording (next_handle init_world)]"
    by auto
  with h1 h2 h3 e show ?thesis
    by (simp add: world_of_def error_of_def)
qed

subsection \<open>C5: the version is incremented before the callback is called\<close>

text \<open>
  C5: whenever the handler calls the callback (the log of calls grows), the callback is
  the subscribed one, it is called once, and the snapshot it can read is already the
  incremented version. The state the handler leaves, also when the callback raises, has
  the incremented version, its snapshot differs from the one before, and the call ends
  in the callback's exception exactly when the callback raised.
\<close>

theorem notify_sees_incremented_version:
  assumes "events (world_of (onDepsChange h sid w)) \<noteq> events w"
  shows "\<exists>cb. onChangeNotifyReact (stores w sid) = Some cb \<and>
     events (world_of (onDepsChange h sid w)) =
       events w @ [Notified cb (sint (version (stores w sid) + 1))] \<and>
     version (stores (world_of (onDepsChange h sid w)) sid) = version (stores w sid) + 1 \<and>
     getSnapshot sid (world_of (onDepsChange h sid w)) = sint (version (stores w sid) + 1) \<and>
     getSnapshot sid (world_of (onDepsChange h sid w)) \<noteq> getSnapshot sid w \<and>
     error_of (onDepsChange h sid w) = (if h then Some HostCallbackRaised else None)"
  using assms
  by (auto simp: onDepsChange_def store_defs Let_def word_eq_iff_signed [symmetric]
      split: if_splits option.splits)

text \<open>C5 at a concrete input: store 0 with callback 7, and the callback raises.\<close>

theorem notify_sees_incremented_version_witness:
  "events (world_of (onDepsChange True 0 (subscribe 7 0 init_world))) \<noteq>
     events (subscribe 7 0 init_world) \<and>
   events (world_of (onDepsChange True 0 (subscribe 7 0 init_world))) = [Notified 7 1] \<and>
   getSnapshot 0 (world_of (onDepsChange True 0 (subscribe 7 0 init_world))) = 1 \<and>
   getSnapshot 0 (subscribe 7 0 init_world) = 0 \<and>
   error_of (onDepsChange True 0 (subscribe 7 0 init_world)) = Some HostCallbackRaised"
proof -
  have h: "events (world_of (onDepsChange True 0 (subscribe 7 0 init_world))) \<noteq>
     events (subscribe 7 0 init_world)"
    by (simp add: all_defs)
  have v: "version (stores (subscribe 7 0 init_world) 0) = 0"
    "events (subscribe 7 0 init_world) = []"
    "onChangeNotifyReact (stores (subscribe 7 0 init_world) 0) = Some 7"
    "getSnapshot 0 (subscribe 7 0 init_world) = 0"
    by (simp_all add: all_defs)
  from notify_sees_incremented_version [OF h] h v show ?thesis
    by auto
qed

subsection \<open>C6: the assertions on depth and cleanup function\<close>

text \<open>
  C6: \<^verbatim>\<open>finishTracking\<close> at depth 0 throws and changes nothing; at depth 1 without a
  cleanup function it throws; \<^verbatim>\<open>startTracking\<close> throws when a cleanup function is
  present at depth 0 and when none is present at a depth above 0. Each of the three
  errors carries the text the source gives it.
\<close>

theorem usage_assertions_throw:
  "(useSignalsDepth w = 0 \<longrightarrow> finishTracking c sid w = Inl (DepthShouldBeNonNegative, w)) \<and>
   (useSignalsDepth w = 1 \<and> cleanUpFn w = None \<longrightarrow>
      error_of (finishTracking c sid w) = Some CleanUpFnShouldBeDefined) \<and>
   (useSignalsDepth w = 0 \<and> cleanUpFn w \<noteq> None \<longrightarrow>
      error_of (startTracking sid w) = Some CleanUpFnShouldBeUndefined) \<and>
   (0 < useSignalsDepth w \<and> cleanUpFn w = None \<longrightarrow>
      error_of (startTracking sid w) = Some CleanUpFnShouldBeDefined) \<and>
   message DepthShouldBeNonNegative = Some ''useSignalsDepth should be non-negative'' \<and>
   message CleanUpFnShouldBeDefined = Some ''cleanUpFn should be defined with depth'' \<and>
   message CleanUpFnShouldBeUndefined = Some ''cleanUpFn should be undefined''"
  by (simp add: finishTracking_def finishBody_def startTracking_def schedule_fields
      upd_store_def error_of_def Let_def)

text \<open>
  C6 at concrete inputs: the initial state for a finish without a start, and the initial
  state with the depth set to 1, or with a cleanup function put in, for the other three.
\<close>

theorem usage_assertions_throw_witness:
  "useSignalsDepth init_world = 0 \<and>
   finishTracking False 0 init_world = Inl (DepthShouldBeNonNegative, init_world) \<and>
   useSignalsDepth (init_world\<lparr>useSignalsDepth := 1\<rparr>) = 1 \<and>
   cleanUpFn (init_world\<lparr>useSignalsDepth := 1\<rparr>) = None \<and>
   error_of (finishTracking False 0 (init_world\<lparr>useSignalsDepth := 1\<rparr>)) =
     Some CleanUpFnShouldBeDefined \<and>
   useSignalsDepth (init_world\<lparr>cleanUpFn := Some 0\<rparr>) = 0 \<and>
   cleanUpFn (init_world\<lparr>cleanUpFn := Some 0\<rparr>) \<noteq> None \<and>
   error_of (startTracking 0 (init_world\<lparr>cleanUpFn := Some 0\<rparr>)) =
     Some CleanUpFnShouldBeUndefined \<and>
   0 < useSignalsDepth (init_world\<lparr>useSignalsDepth := 1\<rparr>) \<and>
   error_of (startTracking 0 (init_world\<lparr>useSignalsDepth := 1\<rparr>)) =
     Some CleanUpFnShouldBeDefined"
proof -
  have h: "useSignalsDepth init_world = 0"
    "useSignalsDepth (init_world\<lparr>useSignalsDepth := 1\<rparr>) = 1"
    "cleanUpFn (init_world\<lparr>useSignalsDepth := 1\<rparr>) = None"
    "useSignalsDepth (init_world\<lparr>cleanUpFn := Some 0\<rparr>) = 0"
    "cleanUpFn (init_world\<lparr>cleanUpFn := Some 0\<rparr>) \<noteq> None"
    "0 < useSignalsDepth (init_world\<lparr>useSignalsDepth := 1\<rparr>)"
    by (simp_all add: init_world_def)
  from usage_assertions_throw [of init_world False 0]
    usage_assertions_throw [of "init_world\<lparr>useSignalsDepth := 1\<rparr>" False 0]
    usage_assertions_throw [of "init_world\<lparr>cleanUpFn := Some 0\<rparr>" False 0]
    h
  show ?thesis by blast
qed

subsection \<open>C7: unsubscribing rotates the version\<close>

text \<open>
  C7: subscribe, call the function \<^verbatim>\<open>subscribe\<close> returned, subscribe again: the snapshot
  then differs from the snapshot read before the unsubscribe, with no change delivered in
  between. The unsubscribe adds 1 to the version in 32-bit arithmetic, clears the
  callback and disposes the effect.
\<close>

theorem resubscribe_changes_snapshot:
  "getSnapshot sid (subscribe cb' sid (unsubscribe sid (subscribe cb sid w))) \<noteq>
     getSnapshot sid (subscribe cb sid w) \<and>
   version (stores (unsubscribe sid w) sid) = version (stores w sid) + 1 \<and>
   onChangeNotifyReact (stores (unsubscribe sid w) sid) = None \<and>
   events (unsubscribe sid w) = events w @ [DisposeScope sid]"
  by (simp add: subscribe_def unsubscribe_def store_defs Let_def word_eq_iff_signed [symmetric])

subsection \<open>C8: one reset per tick\<close>

text \<open>
  C8: in a state where the flag and the queue agree (\<open>reset_inv\<close>, which every
  reachable state satisfies by \<open>reset_inv_reachable\<close>), a batch of one or more calls of
  \<^verbatim>\<open>scheduleResetSyncRerenders\<close> leaves exactly one reset in the queue; if none was
  scheduled before the batch, the batch has queued exactly one. Every store of the batch
  is in the set. When the queued reset runs, every store in the set has counter 0, the
  set is empty, the flag is clear and the queue is empty.
\<close>

theorem reset_coalesced:
  assumes "reset_inv w" and "sids \<noteq> []"
  shows "microtasks (scheduleAll sids w) = [ResetSyncRerenders] \<and>
    (\<not> isResetSyncRerendersScheduled w \<longrightarrow>
       microtasks (scheduleAll sids w) = microtasks w @ [ResetSyncRerenders]) \<and>
    set sids \<subseteq> set (resetSyncRerendersSet (scheduleAll sids w)) \<and>
    (\<forall>s \<in> set (resetSyncRerendersSet (scheduleAll sids w)).
       syncRerendersCount (stores (run_microtasks (scheduleAll sids w)) s) = 0) \<and>
    resetSyncRerendersSet (run_microtasks (scheduleAll sids w)) = [] \<and>
    \<not> isResetSyncRerendersScheduled (run_microtasks (scheduleAll sids w)) \<and>
    microtasks (run_microtasks (scheduleAll sids w)) = []"
proof -
  have inv: "reset_inv (scheduleAll sids w)"
    using assms(1) by (rule scheduleAll_fields(4))
  have sch: "isResetSyncRerendersScheduled (scheduleAll sids w)"
    using assms(2) by (rule scheduleAll_fields(5))
  from inv sch have one: "microtasks (scheduleAll sids w) = [ResetSyncRerenders]"
    by (simp add: reset_inv_def)
  have two: "\<not> isResetSyncRerendersScheduled w \<longrightarrow>
       microtasks (scheduleAll sids w) = microtasks w @ [ResetSyncRerenders]"
    using assms(2) by (simp add: scheduleAll_microtasks)
  show ?thesis
    using one two scheduleAll_fields(3) [of sids w] run_microtasks_scheduled [OF inv]
    by simp
qed

text \<open>
  C8 at a concrete input: stores 1 and 2 have started a render each, their counters
  stand at 1, nothing is scheduled; four calls, two of them for store 1.
\<close>

theorem reset_coalesced_witness:
  "reset_inv (upd_store 2 (\<lambda>st. st\<lparr>syncRerendersCount := 1\<rparr>)
     (upd_store 1 (\<lambda>st. st\<lparr>syncRerendersCount := 1\<rparr>) init_world)) \<and>
   [1, 2, 1, 3] \<noteq> ([] :: store_id list) \<and>
   \<not> isResetSyncRerendersScheduled (upd_store 2 (\<lambda>st. st\<lparr>syncRerendersCount := 1\<rparr>)
     (upd_store 1 (\<lambda>st. st\<lparr>syncRerendersCount := 1\<rparr>) init_world)) \<and>
   microtasks (scheduleAll [1, 2, 1, 3] (upd_store 2 (\<lambda>st. st\<lparr>syncRerendersCount := 1\<rparr>)
     (upd_store 1 (\<lambda>st. st\<lparr>syncRerendersCount := 1\<rparr>) init_world))) = [ResetSyncRerenders] \<and>
   2 \<in> set (resetSyncRerendersSet (scheduleAll [1, 2, 1, 3]
     (upd_store 2 (\<lambda>st. st\<lparr>syncRerendersCount := 1\<rparr>)
       (upd_store 1 (\<lambda>st. st\<lparr>syncRerendersCount := 1\<rparr>) init_world)))) \<and>
   syncRerendersCount (stores (upd_store 2 (\<lambda>st. st\<lparr>syncRerendersCount := 1\<rparr>)
     (upd_store 1 (\<lambda>st. st\<lparr>syncRerendersCount := 1\<rparr>) init_world)) 2) = 1 \<and>
   syncRerendersCount (stores (run_microtasks (scheduleAll [1, 2, 1, 3]
     (upd_store 2 (\<lambda>st. st\<lparr>syncRerendersCount := 1\<rparr>)
       (upd_store 1 (\<lambda>st. st\<lparr>syncRerendersCount := 1\<rparr>) init_world)))) 2) = 0 \<and>
   resetSyncRerendersSet (run_microtasks (scheduleAll [1, 2, 1, 3]
     (upd_store 2 (\<lambda>st. st\<lparr>syncRerendersCount := 1\<rparr>)
       (upd_store 1 (\<lambda>st. st\<lparr>syncRerendersCount := 1\<rparr>) init_world)))) = [] \<and>
   \<not> isResetSyncRerendersScheduled (run_microtasks (scheduleAll [1, 2, 1, 3]
     (upd_store 2 (\<lambda>st. st\<lparr>syncRerendersCount := 1\<rparr>)
       (upd_store 1 (\<lambda>st. st\<lparr>syncRerendersCount := 1\<rparr>) init_world))))"
proof -
  have h1: "reset_inv (upd_store 2 (\<lambda>st. st\<lparr>syncRerendersCount := 1\<rparr>)
     (upd_store 1 (\<lambda>st. st\<lparr>syncRerendersCount := 1\<rparr>) init_world))"
    by (simp add: reset_inv_def upd_store_def init_world_def)
  have h2: "[1, 2, 1, 3] \<noteq> ([] :: store_id list)" by simp
  have h3: "\<not> isResetSyncRerendersScheduled (upd_store 2 (\<lambda>st. st\<lparr>syncRerendersCount := 1\<rparr>)
     (upd_store 1 (\<lambda>st. st\<lparr>syncRerendersCount := 1\<rparr>) init_world))"
    by (simp add: upd_store_def init_world_def)
  have h4: "2 \<in> set (resetSyncRerendersSet (scheduleAll [1, 2, 1, 3]
     (upd_store 2 (\<lambda>st. st\<lparr>syncRerendersCount := 1\<rparr>)
       (upd_store 1 (\<lambda>st. st\<lparr>syncRerendersCount := 1\<rparr>) init_world))))"
    by (simp add: scheduleResetSyncRerenders_def upd_store_def init_world_def Let_def)
  have h5: "syncRerendersCount (stores (upd_store 2 (\<lambda>st. st\<lparr>syncRerendersCount := 1\<rparr>)
     (upd_store 1 (\<lambda>st. st\<lparr>syncRerendersCount := 1\<rparr>) init_world)) 2) = 1"
    by (simp add: upd_store_def init_world_def)
  from reset_coalesced [OF h1 h2] h1 h2 h3 h4 h5
  show ?thesis by blast
qed

subsection \<open>C9: a cleanup function is held exactly while a region is open\<close>

text \<open>
  C9: \<^verbatim>\<open>cleanUpFn\<close> is set if and only if \<^verbatim>\<open>useSignalsDepth\<close> is above 0. This holds in the
  initial state, a \<^verbatim>\<open>startTracking\<close> or \<^verbatim>\<open>finishTracking\<close> that returns keeps it, for any
  store, and so it holds after every sequence of calls on any stores that runs without
  a throw from the initial state.
\<close>

theorem cleanup_handle_iff_depth:
  "cleanup_inv init_world \<and>
   (cleanup_inv w \<and> startTracking sid w = Inr w' \<longrightarrow> cleanup_inv w') \<and>
   (cleanup_inv w \<and> finishTracking c sid w = Inr w'' \<longrightarrow> cleanup_inv w'') \<and>
   (run xs init_world = Inr v \<longrightarrow> cleanup_inv v)"
proof -
  have a: "cleanup_inv w \<and> startTracking sid w = Inr w' \<longrightarrow> cleanup_inv w'"
    using cleanup_inv_exec [of w "Start sid"] by (auto simp: world_of_def)
  have b: "cleanup_inv w \<and> finishTracking c sid w = Inr w'' \<longrightarrow> cleanup_inv w''"
    using cleanup_inv_exec [of w "Finish sid c"] by (auto simp: world_of_def)
  have d: "run xs init_world = Inr v \<longrightarrow> cleanup_inv v"
    using cleanup_inv_reachable [of xs] run_steps [of xs init_world v] by auto
  from a b d init_world_invs(1) show ?thesis by blast
qed

text \<open>
  C9 at a concrete input: store 0 starts, store 1 starts and finishes inside it; the
  invariant holds when one region is open, when two are, and after the inner one closed.
\<close>

theorem cleanup_handle_iff_depth_witness:
  "cleanup_inv init_world \<and>
   startTracking 0 init_world = Inr (steps [Start 0] init_world) \<and>
   cleanup_inv (steps [Start 0] init_world) \<and>
   cleanup_inv (steps [Start 0, Start 1] init_world) \<and>
   finishTracking False 1 (steps [Start 0, Start 1] init_world) =
     Inr (steps [Start 0, Start 1, Finish 1 False] init_world) \<and>
   cleanup_inv (steps [Start 0, Start 1, Finish 1 False] init_world) \<and>
   run [Start 0, Start 1] init_world = Inr (steps [Start 0, Start 1] init_world) \<and>
   cleanUpFn (steps [Start 0, Start 1, Finish 1 False] init_world) = Some 0 \<and>
   useSignalsDepth (steps [Start 0, Start 1, Finish 1 False] init_world) = 1"
proof -
  have h1: "startTracking 0 init_world = Inr (steps [Start 0] init_world)"
    by (simp add: all_defs)
  have h2: "run [Start 0, Start 1] init_world = Inr (steps [Start 0, Start 1] init_world)"
    by (simp add: all_defs)
  have h3: "finishTracking False 1 (steps [Start 0, Start 1] init_world) =
     Inr (steps [Start 0, Start 1, Finish 1 False] init_world)"
    by (simp add: all_defs)
  have h4: "cleanUpFn (steps [Start 0, Start 1, Finish 1 False] init_world) = Some 0"
    "useSignalsDepth (steps [Start 0, Start 1, Finish 1 False] init_world) = 1"
    by (simp_all add: all_defs)
  note a = cleanup_handle_iff_depth
    [where w = init_world and sid = 0 and w' = "steps [Start 0] init_world"
      and xs = "[Start 0, Start 1]" and v = "steps [Start 0, Start 1] init_world"
      and c = False and w'' = init_world]
  note b = cleanup_handle_iff_depth
    [where w = "steps [Start 0, Start 1] init_world" and sid = 1 and c = False
      and w'' = "steps [Start 0, Start 1, Finish 1 False] init_world"
      and w' = init_world and xs = "[]" and v = init_world]
  from a b h1 h2 h3 h4 show ?thesis by blast
qed

subsection \<open>C10: the guard throws before anything is changed\<close>

text \<open>
  C10: when the handler throws the too-many-rerenders error, the state at the throw is
  the state it was called in: the version is not incremented and the callback is not
  called. The error carries the counter, which exceeds 25, and the store was not
  rendering.
\<close>

theorem too_many_rerenders_leaves_state:
  assumes "onDepsChange h sid w = Inl (TooManySyncRerenders n, w')"
  shows "w' = w \<and> n = syncRerendersCount (stores w sid) \<and> maxSyncRerenders < n \<and>
    \<not> inRender (stores w sid)"
  using assms
  by (auto simp: onDepsChange_def store_defs Let_def split: if_splits option.splits)

text \<open>C10 at a concrete input: a change delivered to store 0 after its 26th render of the tick.\<close>

theorem too_many_rerenders_leaves_state_witness:
  "onDepsChange False 0 overrun_world = Inl (TooManySyncRerenders 26, overrun_world) \<and>
   version (stores (world_of (onDepsChange False 0 overrun_world)) 0) =
     version (stores overrun_world 0) \<and>
   events (world_of (onDepsChange False 0 overrun_world)) = events overrun_world \<and>
   maxSyncRerenders < 26"
proof -
  have r: "\<not> inRender (stores overrun_world 0)" by code_simp
  have n: "syncRerendersCount (stores overrun_world 0) = 26" by code_simp
  have h: "onDepsChange False 0 overrun_world = Inl (TooManySyncRerenders 26, overrun_world)"
    using r n by (simp add: onDepsChange_def maxSyncRerenders_def)
  from too_many_rerenders_leaves_state [OF h] h show ?thesis
    by (simp add: world_of_def)
qed

end
